theory Spec2Isabelle
  imports Main "HOL-Library.Sublist" "HOL-Library.AList"
begin

section \<open>Strings\<close>

text \<open>
  A Python \<open>str\<close> is a sequence of code points. The embedding takes the code points
  U+0000 .. U+00FF: a \<^typ>\<open>char\<close> is one such code point and a \<^typ>\<open>string\<close> is a
  \<open>str\<close>, so \<open>length\<close> is Python's \<open>len\<close>, \<open>sublist u s\<close> is \<open>u in s\<close> and
  \<open>prefix u s\<close> is \<open>s.startswith(u)\<close>. The character classes below are those of
  CPython on this range.
\<close>

definition code :: "char \<Rightarrow> nat" where
  "code c = of_char c"

text \<open>\<open>str.isspace\<close>, which is also the class \<open>\s\<close> of \<open>re\<close> on \<open>str\<close> patterns.\<close>

definition isspace :: "char \<Rightarrow> bool" where
  "isspace c = ((9 \<le> code c \<and> code c \<le> 13) \<or> (28 \<le> code c \<and> code c \<le> 32)
      \<or> code c = 133 \<or> code c = 160)"

text \<open>The class \<open>\d\<close>: the decimal digits; on this range they are \<open>0\<close> .. \<open>9\<close>.\<close>

definition isdigit :: "char \<Rightarrow> bool" where
  "isdigit c = (48 \<le> code c \<and> code c \<le> 57)"

text \<open>The classes \<open>[A-Z]\<close>, \<open>[a-z]\<close> and \<open>[A-Za-z]\<close>.\<close>

definition upper_AZ :: "char \<Rightarrow> bool" where
  "upper_AZ c = (65 \<le> code c \<and> code c \<le> 90)"

definition lower_az :: "char \<Rightarrow> bool" where
  "lower_az c = (97 \<le> code c \<and> code c \<le> 122)"

definition alpha_AZaz :: "char \<Rightarrow> bool" where
  "alpha_AZaz c = (upper_AZ c \<or> lower_az c)"

text \<open>
  The class \<open>\w\<close>: alphanumeric code points (\<open>str.isalnum\<close>) and the underscore.
\<close>

definition isword :: "char \<Rightarrow> bool" where
  "isword c = (isdigit c \<or> alpha_AZaz c \<or> c = CHR ''_''
      \<or> code c \<in> {170, 178, 179, 181, 185, 186, 188, 189, 190}
      \<or> (192 \<le> code c \<and> code c \<le> 214) \<or> (216 \<le> code c \<and> code c \<le> 246)
      \<or> 248 \<le> code c)"

text \<open>\<open>str.lower\<close>, one code point at a time.\<close>

definition lower_char :: "char \<Rightarrow> char" where
  "lower_char c = (if upper_AZ c \<or> (192 \<le> code c \<and> code c \<le> 222 \<and> code c \<noteq> 215)
      then char_of (code c + 32) else c)"

definition lower :: "string \<Rightarrow> string" where
  "lower s = map lower_char s"

text \<open>\<open>str.strip()\<close>: leading and trailing white space removed.\<close>

definition lstrip :: "string \<Rightarrow> string" where
  "lstrip s = dropWhile isspace s"

definition rstrip :: "string \<Rightarrow> string" where
  "rstrip s = rev (dropWhile isspace (rev s))"

definition strip :: "string \<Rightarrow> string" where
  "strip s = rstrip (lstrip s)"

section \<open>Regular expressions\<close>

text \<open>
  Every pattern of the source is a sequence of atoms, an atom being a character class
  with a greedy repetition \<open>{lo,hi}\<close> (\<open>hi = None\<close>: unbounded). \<open>rx_match\<close> is the
  backtracking matcher of \<open>re\<close> at one start position: for each atom it tries the
  longest repetition first and gives the first way that lets the rest of the pattern
  match, as the text each atom consumed and the text left over. \<open>rx_search\<close> is
  \<open>re.search\<close>: the match at the leftmost start position that has one.
\<close>

type_synonym atom = "(char \<Rightarrow> bool) \<times> nat \<times> nat option"

definition run :: "(char \<Rightarrow> bool) \<Rightarrow> nat option \<Rightarrow> string \<Rightarrow> nat" where
  "run cl hi s = (let n = length (takeWhile cl s) in
      case hi of None \<Rightarrow> n | Some m \<Rightarrow> min m n)"

definition splits :: "(char \<Rightarrow> bool) \<Rightarrow> nat \<Rightarrow> nat option \<Rightarrow> string \<Rightarrow> (string \<times> string) list" where
  "splits cl lo hi s = map (\<lambda>k. (take k s, drop k s)) (rev [lo ..< Suc (run cl hi s)])"

fun first_some :: "'a option list \<Rightarrow> 'a option" where
  "first_some [] = None"
| "first_some (None # xs) = first_some xs"
| "first_some (Some x # xs) = Some x"

fun rx_match :: "atom list \<Rightarrow> string \<Rightarrow> (string list \<times> string) option" where
  "rx_match [] s = Some ([], s)"
| "rx_match ((cl, lo, hi) # r) s =
     first_some (map (\<lambda>(u, v). map_option (\<lambda>(gs, rest). (u # gs, rest)) (rx_match r v))
       (splits cl lo hi s))"

fun rx_search :: "atom list \<Rightarrow> string \<Rightarrow> string list option" where
  "rx_search r [] = map_option fst (rx_match r [])"
| "rx_search r (c # cs) =
     (case rx_match r (c # cs) of Some (gs, rest) \<Rightarrow> Some gs | None \<Rightarrow> rx_search r cs)"

definition lit :: "char \<Rightarrow> atom" where
  "lit c = ((\<lambda>x. x = c), 1, Some 1)"

text \<open>A literal under \<open>re.IGNORECASE\<close>.\<close>

definition lit_i :: "char \<Rightarrow> atom" where
  "lit_i c = ((\<lambda>x. lower_char x = lower_char c), 1, Some 1)"

definition one :: "(char \<Rightarrow> bool) \<Rightarrow> atom" where
  "one cl = (cl, 1, Some 1)"

definition star :: "(char \<Rightarrow> bool) \<Rightarrow> atom" where
  "star cl = (cl, 0, None)"

definition plus :: "(char \<Rightarrow> bool) \<Rightarrow> atom" where
  "plus cl = (cl, 1, None)"

definition rep :: "(char \<Rightarrow> bool) \<Rightarrow> nat \<Rightarrow> nat \<Rightarrow> atom" where
  "rep cl lo hi = (cl, lo, Some hi)"

text \<open>\<open>PMID:\s*\d+\<close>\<close>

definition rx_pmid :: "atom list" where
  "rx_pmid = map lit ''PMID:'' @ [star isspace, plus isdigit]"

text \<open>\<open>PMID:\s*(\d+)\<close> with \<open>re.IGNORECASE\<close>; the group is the seventh atom.\<close>

definition rx_pmid_group :: "atom list" where
  "rx_pmid_group = map lit_i ''PMID:'' @ [star isspace, plus isdigit]"

text \<open>\<open>doi:\s*10\.\d+\<close>\<close>

definition rx_doi :: "atom list" where
  "rx_doi = map lit ''doi:'' @ [star isspace] @ map lit ''10.'' @ [plus isdigit]"

text \<open>\<open>\d{4}[;\s][A-Za-z\s]+\d+\(\d+\):\d+\<close>\<close>

definition rx_journal :: "atom list" where
  "rx_journal = [rep isdigit 4 4, one (\<lambda>c. c = CHR '';'' \<or> isspace c),
     plus (\<lambda>c. alpha_AZaz c \<or> isspace c), plus isdigit, lit CHR ''('', plus isdigit,
     lit CHR '')'', lit CHR '':'', plus isdigit]"

text \<open>
  \<open>^[A-Z][a-z]+\s+[A-Z]{1,3}[a-z]*.*\d{4}\<close>: anchored at the start of the text (no
  \<open>re.MULTILINE\<close>), so it is matched with \<open>rx_match\<close>; \<open>.\<close> is any character but the
  line feed.
\<close>

definition rx_author_year :: "atom list" where
  "rx_author_year = [one upper_AZ, plus lower_az, plus isspace, rep upper_AZ 1 3,
     star lower_az, star (\<lambda>c. c \<noteq> CHR 0x0A), rep isdigit 4 4]"

section \<open>The classifier\<close>

definition code_indicators :: "string list" where
  "code_indicators = [''def '', ''import '', ''class '', ''return '', ''if __name__'',
     ''from typing'', ''PyQt'', ''QApplication'', ''print('', [CHR 0x22, CHR 0x22, CHR 0x22]]"

text \<open>Python's \<open>sum\<close> of a list of booleans.\<close>

definition sum_bools :: "bool list \<Rightarrow> nat" where
  "sum_bools bs = length (filter (\<lambda>b. b) bs)"

text \<open>\<open>CitationManager.isPubmedCitation\<close>; what it prints is left out.\<close>

definition isPubmedCitation :: "string \<Rightarrow> bool" where
  "isPubmedCitation text0 =
     (let text = strip text0 in
      if length text < 20 then False
      else if list_ex (\<lambda>indicator. sublist indicator text) code_indicators then False
      else
        let has_pmid = (rx_search rx_pmid text \<noteq> None);
            has_doi = (rx_search rx_doi text \<noteq> None);
            has_journal_format = (rx_search rx_journal text \<noteq> None);
            has_author_year = (rx_match rx_author_year text \<noteq> None);
            strong_indicators = [has_pmid, has_doi, has_journal_format \<and> has_author_year];
            weak_indicators = [sublist ''epub'' (lower text), sublist ''pmcid:'' (lower text)]
        in sum_bools strong_indicators \<ge> 1 \<or> sum_bools weak_indicators \<ge> 2)"

text \<open>
  The identifier \<open>addCitation\<close> extracts: group 1 of the first match of
  \<open>PMID:\s*(\d+)\<close>, letter case ignored, in the text as given (not stripped).
\<close>

definition extract_pmid :: "string \<Rightarrow> string option" where
  "extract_pmid text0 = map_option (\<lambda>gs. gs ! 6) (rx_search rx_pmid_group text0)"

section \<open>Citation records and the persisted file\<close>

text \<open>
  The dataclass \<open>Citation\<close>. Its \<open>timestamp\<close> is a \<open>datetime\<close> of Python's standard
  library; the embedding leaves the type of timestamps open (\<open>'dt\<close>) and takes the two
  library functions the source calls on it, \<open>datetime.isoformat\<close> and
  \<open>datetime.fromisoformat\<close>, as a parameter. \<open>fromisoformat\<close> gives \<open>None\<close> where
  Python raises \<open>ValueError\<close>.
\<close>

record 'dt Citation =
  "text" :: string
  timestamp :: 'dt
  pmid :: "string option"
  "notes" :: string
  summary :: string

record 'dt datetime_lib =
  isoformat :: "'dt \<Rightarrow> string"
  fromisoformat :: "string \<Rightarrow> 'dt option"

text \<open>
  What \<open>json.load\<close> returns and \<open>json.dump\<close> takes: a JSON value, an object being the
  list of its keys and values in order. A file is modelled by what reading it gives:
  \<open>Json v\<close> when \<open>open\<close> and \<open>json.load\<close> return \<open>v\<close>, \<open>Corrupt\<close> when one of them
  raises (unreadable, not UTF-8, not JSON). \<open>json.dump\<close> of \<open>v\<close> writes a file that
  reads back as \<open>Json v\<close>.
\<close>

datatype json = JNull | JBool bool | JNum int | JStr string | JList "json list"
  | JObj "(string \<times> json) list"

datatype file_content = Corrupt | Json json

datatype exc = KeyError | TypeError | ValueError

text \<open>
  The state the manager works on: the attributes of \<open>CitationManager\<close> (\<open>enabled\<close> is
  \<open>openai_helper.enabled\<close>, \<open>data_file\<close> the path below the home directory), and its
  environment: the files below the home directory, and whether opening a file for
  writing succeeds.
\<close>

record 'dt manager =
  library_name :: string
  citations :: "'dt Citation list"
  data_file :: string
  enabled :: bool
  disk :: "(string \<times> file_content) list"
  writable :: bool

definition file_name :: "string \<Rightarrow> string" where
  "file_name name = ''.pubmed_citations_'' @ name @ ''.json''"

subsection \<open>Saving\<close>

definition to_dict :: "'dt datetime_lib \<Rightarrow> 'dt Citation \<Rightarrow> json" where
  "to_dict L c = JObj [(''text'', JStr (text c)),
     (''timestamp'', JStr (isoformat L (timestamp c))),
     (''pmid'', case pmid c of None \<Rightarrow> JNull | Some p \<Rightarrow> JStr p),
     (''notes'', JStr (notes c)),
     (''summary'', JStr (summary c))]"

text \<open>
  \<open>CitationManager.saveCitations\<close>: the whole list is written over the file; when the
  file cannot be opened the exception is caught and nothing changes.
\<close>

definition saveCitations :: "'dt datetime_lib \<Rightarrow> 'dt manager \<Rightarrow> 'dt manager" where
  "saveCitations L s =
     (if writable s
      then s\<lparr>disk := AList.update (data_file s) (Json (JList (map (to_dict L) (citations s)))) (disk s)\<rparr>
      else s)"

subsection \<open>Loading\<close>

text \<open>\<open>for item in data\<close>: a list gives its elements, a dict its keys, a string its
  characters; anything else is not iterable.\<close>

fun py_iter :: "json \<Rightarrow> exc + json list" where
  "py_iter (JList xs) = Inr xs"
| "py_iter (JObj kv) = Inr (map (\<lambda>(k, v). JStr k) kv)"
| "py_iter (JStr s) = Inr (map (\<lambda>c. JStr [c]) s)"
| "py_iter _ = Inl TypeError"

text \<open>\<open>item.get(key, default)\<close> on a dict.\<close>

definition dict_get :: "(string \<times> json) list \<Rightarrow> string \<Rightarrow> json \<Rightarrow> json" where
  "dict_get kv key dflt = (case map_of kv key of None \<Rightarrow> dflt | Some v \<Rightarrow> v)"

text \<open>
  The constructor \<open>Citation(...)\<close> checks no types. A loaded value that is not of the
  type the dataclass declares for its field (a number as \<open>text\<close>, say) is kept by the
  code as it is and raises nothing; no record of this embedding stands for the result,
  which is \<open>None\<close> here.
\<close>

definition typed_citation :: "json \<Rightarrow> 'dt \<Rightarrow> json \<Rightarrow> json \<Rightarrow> json \<Rightarrow> 'dt Citation option" where
  "typed_citation t d p n sm =
     (case (t, n, sm) of
        (JStr t', JStr n', JStr sm') \<Rightarrow>
          (case p of
             JNull \<Rightarrow> Some \<lparr>text = t', timestamp = d, pmid = None, notes = n', summary = sm'\<rparr>
           | JStr p' \<Rightarrow> Some \<lparr>text = t', timestamp = d, pmid = Some p', notes = n', summary = sm'\<rparr>
           | _ \<Rightarrow> None)
      | _ \<Rightarrow> None)"

text \<open>
  One round of the loop of \<open>loadCitations\<close>. The arguments of \<open>Citation(...)\<close> are
  evaluated in order: \<open>item['text']\<close> (\<open>TypeError\<close> unless \<open>item\<close> is a dict, \<open>KeyError\<close>
  when the key is missing), \<open>item['timestamp']\<close>, \<open>fromisoformat\<close> of it (\<open>TypeError\<close>
  when it is not a string, \<open>ValueError\<close> when it is malformed), then the three \<open>get\<close>s.
\<close>

fun load_item :: "'dt datetime_lib \<Rightarrow> json \<Rightarrow> exc + 'dt Citation option" where
  "load_item L (JObj kv) =
     (case map_of kv ''text'' of
        None \<Rightarrow> Inl KeyError
      | Some t \<Rightarrow>
          (case map_of kv ''timestamp'' of
             None \<Rightarrow> Inl KeyError
           | Some (JStr ts) \<Rightarrow>
               (case fromisoformat L ts of
                  None \<Rightarrow> Inl ValueError
                | Some d \<Rightarrow> Inr (typed_citation t d (dict_get kv ''pmid'' JNull)
                     (dict_get kv ''notes'' (JStr [])) (dict_get kv ''summary'' (JStr []))))
           | Some _ \<Rightarrow> Inl TypeError))"
| "load_item L _ = Inl TypeError"

text \<open>The loop: each record is appended to the list; an exception ends it.\<close>

fun load_loop :: "'dt datetime_lib \<Rightarrow> json list \<Rightarrow> 'dt Citation list option
    \<Rightarrow> exc + 'dt Citation list option" where
  "load_loop L [] acc = Inr acc"
| "load_loop L (item # items) acc =
     (case load_item L item of
        Inl e \<Rightarrow> Inl e
      | Inr c \<Rightarrow> load_loop L items
          (case acc of None \<Rightarrow> None
           | Some cs \<Rightarrow> (case c of None \<Rightarrow> None | Some c' \<Rightarrow> Some (cs @ [c']))))"

text \<open>What \<open>loadCitations\<close> prints, which tells the four ways it ends apart.\<close>

datatype load_report = NoSavedCitations | Loaded nat | WrongKey | ErrorLoading

text \<open>
  \<open>CitationManager.loadCitations\<close>. The result is \<open>None\<close> only for a file with a value
  outside the declared field types (see \<open>typed_citation\<close>).
\<close>

definition loadCitations :: "'dt datetime_lib \<Rightarrow> 'dt manager \<Rightarrow> (load_report \<times> 'dt manager) option" where
  "loadCitations L s =
     (case map_of (disk s) (data_file s) of
        None \<Rightarrow> Some (NoSavedCitations, s)
      | Some Corrupt \<Rightarrow> Some (ErrorLoading, s\<lparr>citations := []\<rparr>)
      | Some (Json data) \<Rightarrow>
          (case py_iter data of
             Inl e \<Rightarrow> Some (ErrorLoading, s\<lparr>citations := []\<rparr>)
           | Inr items \<Rightarrow>
               (case load_loop L items (Some (citations s)) of
                  Inl KeyError \<Rightarrow> Some (WrongKey, s\<lparr>citations := []\<rparr>)
                | Inl _ \<Rightarrow> Some (ErrorLoading, s\<lparr>citations := []\<rparr>)
                | Inr None \<Rightarrow> None
                | Inr (Some cs) \<Rightarrow> Some (Loaded (length cs), s\<lparr>citations := cs\<rparr>))))"

section \<open>The summary provider\<close>

text \<open>
  \<open>OpenAIHelper.__init__\<close>: \<open>enabled\<close> is set from the key \<open>loadApiKey\<close> returns (the
  empty string when the key file cannot be read) and from whether the construction of
  the client raises.
\<close>

definition OpenAIHelper_init :: "string \<Rightarrow> bool \<Rightarrow> bool" where
  "OpenAIHelper_init api_key client_ok = (if api_key \<noteq> [] then client_ok else False)"

text \<open>\<open>str(n)\<close> for a natural number.\<close>

function str_nat :: "nat \<Rightarrow> string" where
  "str_nat n = (if n < 10 then [char_of (48 + n)]
     else str_nat (n div 10) @ [char_of (48 + n mod 10)])"
  by pat_completeness auto
termination
  by (relation "measure id") auto

text \<open>\<open>s.split('\n')\<close>\<close>

fun split_nl :: "string \<Rightarrow> string list" where
  "split_nl [] = [[]]"
| "split_nl (c # cs) =
     (if c = CHR 0x0A then [] # split_nl cs
      else (case split_nl cs of [] \<Rightarrow> [[c]] | l # ls \<Rightarrow> (c # l) # ls))"

definition clean_line :: "nat \<Rightarrow> string \<Rightarrow> string" where
  "clean_line i line =
     (let cl = strip line; num = str_nat (i + 1) @ ''.''
      in if prefix num cl then strip (drop (length num) cl) else cl)"

text \<open>
  \<open>OpenAIHelper.generateCitationSummaries\<close>. The request goes to an external service;
  \<open>resp\<close> is what comes back: \<open>Some\<close> of the content of the first choice, or \<open>None\<close>
  when anything in the \<open>try\<close> block raises before the answer is parsed. The result is
  the dict \<open>summaries\<close>, a later line for the same citation text replacing an earlier one.
\<close>

definition generateCitationSummaries :: "bool \<Rightarrow> string option \<Rightarrow> string list \<Rightarrow> (string \<rightharpoonup> string)" where
  "generateCitationSummaries en resp cits =
     (if \<not> en \<or> cits = [] then Map.empty
      else case resp of
        None \<Rightarrow> Map.empty
      | Some content \<Rightarrow>
          fold (\<lambda>(i, line) summaries.
                  if strip line \<noteq> [] \<and> i < length cits
                  then summaries(cits ! i \<mapsto> clean_line i line) else summaries)
            (enumerate 0 (split_nl (strip content))) Map.empty)"

section \<open>The manager\<close>

text \<open>The body of the loop over the records: \<open>if citation.text in summaries: ...\<close>\<close>

definition set_summary :: "(string \<rightharpoonup> string) \<Rightarrow> 'dt Citation \<Rightarrow> 'dt Citation" where
  "set_summary summaries c =
     (case summaries (text c) of None \<Rightarrow> c | Some l \<Rightarrow> c\<lparr>summary := l\<rparr>)"

text \<open>\<open>CitationManager.updateSummaries\<close>\<close>

definition updateSummaries :: "'dt datetime_lib \<Rightarrow> string option \<Rightarrow> 'dt manager \<Rightarrow> 'dt manager" where
  "updateSummaries L resp s =
     (if \<not> enabled s then s
      else
        let citations_needing_summary = map text (citations s) in
        if citations_needing_summary = [] then s
        else
          let summaries = generateCitationSummaries (enabled s) resp citations_needing_summary
          in saveCitations L (s\<lparr>citations := map (set_summary summaries) (citations s)\<rparr>))"

text \<open>What \<open>addCitation\<close> returns: \<open>True\<close>, \<open>False\<close> or the string \<open>"note_appended"\<close>.\<close>

datatype ret = PyBool bool | PyStr string

definition separator :: string where
  "separator = [CHR 0x0A] @ ''---'' @ [CHR 0x0A]"

text \<open>The update of the first element a loop with \<open>break\<close> finds, the others untouched.\<close>

fun modify_first :: "('a \<Rightarrow> bool) \<Rightarrow> ('a \<Rightarrow> 'a) \<Rightarrow> 'a list \<Rightarrow> 'a list" where
  "modify_first P f [] = []"
| "modify_first P f (x # xs) = (if P x then f x # xs else x # modify_first P f xs)"

definition append_note :: "string \<Rightarrow> 'dt Citation \<Rightarrow> 'dt Citation" where
  "append_note notes0 c =
     (if notes c \<noteq> [] then c\<lparr>notes := notes c @ separator @ strip notes0\<rparr>
      else c\<lparr>notes := strip notes0\<rparr>)"

text \<open>
  \<open>CitationManager.addCitation\<close>. \<open>now\<close> is what \<open>datetime.now()\<close> returns at the call,
  \<open>resp\<close> the answer of the summary service should it be asked.
\<close>

definition addCitation :: "'dt datetime_lib \<Rightarrow> 'dt \<Rightarrow> string option \<Rightarrow> string \<Rightarrow> string
    \<Rightarrow> 'dt manager \<Rightarrow> ret \<times> 'dt manager" where
  "addCitation L now resp text0 notes0 s =
     (if \<not> isPubmedCitation text0 then (PyBool False, s)
      else
        let pmid0 = extract_pmid text0 in
        case find (\<lambda>c. text c = strip text0) (citations s) of
          Some existing_citation \<Rightarrow>
            if strip notes0 \<noteq> [] then
              (PyStr ''note_appended'',
               saveCitations L (s\<lparr>citations :=
                 modify_first (\<lambda>c. text c = strip text0) (append_note notes0) (citations s)\<rparr>))
            else (PyBool False, s)
        | None \<Rightarrow>
            (PyBool True,
             updateSummaries L resp (saveCitations L (s\<lparr>citations := citations s @
               [\<lparr>text = strip text0, timestamp = now, pmid = pmid0, notes = notes0,
                 summary = []\<rparr>]\<rparr>))))"

text \<open>\<open>CitationManager.removeCitation\<close>; \<open>del xs[i]\<close> for \<open>0 \<le> i < len(xs)\<close>.\<close>

definition removeCitation :: "'dt datetime_lib \<Rightarrow> int \<Rightarrow> 'dt manager \<Rightarrow> 'dt manager" where
  "removeCitation L index s =
     (if 0 \<le> index \<and> index < int (length (citations s))
      then saveCitations L
             (s\<lparr>citations := take (nat index) (citations s) @ drop (Suc (nat index)) (citations s)\<rparr>)
      else s)"


text \<open>\<open>CitationManager.__init__\<close>, in the environment given.\<close>

definition CitationManager_init :: "'dt datetime_lib \<Rightarrow> string \<Rightarrow> string \<Rightarrow> bool
    \<Rightarrow> (string \<times> file_content) list \<Rightarrow> bool \<Rightarrow> 'dt manager option" where
  "CitationManager_init L name api_key client_ok d w =
     map_option snd (loadCitations L
       \<lparr>library_name = name, citations = [], data_file = file_name name,
        enabled = OpenAIHelper_init api_key client_ok, disk = d, writable = w\<rparr>)"

text \<open>\<open>CitationManager.switchLibrary\<close>\<close>

definition switchLibrary :: "'dt datetime_lib \<Rightarrow> string \<Rightarrow> 'dt manager \<Rightarrow> 'dt manager option" where
  "switchLibrary L name s =
     (let s1 = saveCitations L s
      in map_option snd (loadCitations L
           (s1\<lparr>library_name := name, data_file := file_name name, citations := []\<rparr>)))"

section \<open>Library creation in the window\<close>

text \<open>
  \<open>CitationWindow.switchToLibrary\<close> and \<open>CitationWindow.createNewLibrary\<close>
  (citationCollector.py), as far as they act on the manager. \<open>name\<close> and \<open>ok\<close> are what
  the input dialog returns; \<open>sanitize\<close> is
  \<open>re.sub(r'[^\w\-_]', '_', name.strip())\<close>.
\<close>

definition safe_char :: "char \<Rightarrow> bool" where
  "safe_char c = (isword c \<or> c = CHR ''-'' \<or> c = CHR ''_'')"

definition sanitize :: "string \<Rightarrow> string" where
  "sanitize name = map (\<lambda>c. if safe_char c then c else CHR ''_'') (strip name)"

definition switchToLibrary :: "'dt datetime_lib \<Rightarrow> string \<Rightarrow> 'dt manager \<Rightarrow> 'dt manager option" where
  "switchToLibrary L name s =
     (if name = library_name s then Some s else switchLibrary L name s)"

definition createNewLibrary :: "'dt datetime_lib \<Rightarrow> string \<Rightarrow> bool \<Rightarrow> 'dt manager \<Rightarrow> 'dt manager option" where
  "createNewLibrary L name ok s =
     (if ok \<and> strip name \<noteq> [] then switchToLibrary L (sanitize name) s else Some s)"

section \<open>An instance of the datetime library\<close>

text \<open>
  Naive datetimes (no time zone), as \<open>datetime.now()\<close> returns them, with the text
  \<open>isoformat\<close> gives for them, \<open>YYYY-MM-DDTHH:MM:SS\<close> followed by \<open>.ffffff\<close> when the
  microseconds are not zero, and a parser of that text which checks the ranges as the
  constructor of \<open>datetime\<close> does. The concrete states below are built on it.
\<close>

record datetime =
  year :: nat
  month :: nat
  day :: nat
  hour :: nat
  minute :: nat
  second :: nat
  microsecond :: nat

definition pad :: "nat \<Rightarrow> nat \<Rightarrow> string" where
  "pad w n = replicate (w - length (str_nat n)) CHR ''0'' @ str_nat n"

definition naive_isoformat :: "datetime \<Rightarrow> string" where
  "naive_isoformat d =
     pad 4 (year d) @ ''-'' @ pad 2 (month d) @ ''-'' @ pad 2 (day d) @ ''T'' @
     pad 2 (hour d) @ '':'' @ pad 2 (minute d) @ '':'' @ pad 2 (second d) @
     (if microsecond d = 0 then [] else ''.'' @ pad 6 (microsecond d))"

definition nat_of_digits :: "string \<Rightarrow> nat option" where
  "nat_of_digits s =
     (if s \<noteq> [] \<and> list_all isdigit s
      then Some (foldl (\<lambda>a c. 10 * a + (code c - 48)) 0 s) else None)"

definition days_in_month :: "nat \<Rightarrow> nat \<Rightarrow> nat" where
  "days_in_month y m =
     (if m = 2 then (if y mod 4 = 0 \<and> (y mod 100 \<noteq> 0 \<or> y mod 400 = 0) then 29 else 28)
      else if m \<in> {4, 6, 9, 11} then 30 else 31)"

definition valid_datetime :: "datetime \<Rightarrow> bool" where
  "valid_datetime d = (1 \<le> year d \<and> year d \<le> 9999 \<and> 1 \<le> month d \<and> month d \<le> 12
     \<and> 1 \<le> day d \<and> day d \<le> days_in_month (year d) (month d)
     \<and> hour d < 24 \<and> minute d < 60 \<and> second d < 60 \<and> microsecond d < 1000000)"

definition naive_fromisoformat :: "string \<Rightarrow> datetime option" where
  "naive_fromisoformat s =
     (if (length s = 19 \<or> (length s = 26 \<and> s ! 19 = CHR ''.''))
         \<and> s ! 4 = CHR ''-'' \<and> s ! 7 = CHR ''-'' \<and> s ! 13 = CHR '':'' \<and> s ! 16 = CHR '':''
      then
        (case (nat_of_digits (take 4 s), nat_of_digits (take 2 (drop 5 s)),
               nat_of_digits (take 2 (drop 8 s)), nat_of_digits (take 2 (drop 11 s)),
               nat_of_digits (take 2 (drop 14 s)), nat_of_digits (take 2 (drop 17 s)),
               if length s = 19 then Some 0 else nat_of_digits (drop 20 s)) of
           (Some y, Some mo, Some d, Some h, Some mi, Some se, Some us) \<Rightarrow>
             (let dt = \<lparr>year = y, month = mo, day = d, hour = h, minute = mi, second = se,
                        microsecond = us\<rparr>
              in if valid_datetime dt then Some dt else None)
         | _ \<Rightarrow> None)
      else None)"

definition naive_lib :: "datetime datetime_lib" where
  "naive_lib = \<lparr>isoformat = naive_isoformat, fromisoformat = naive_fromisoformat\<rparr>"

subsection \<open>Concrete inputs\<close>

definition ex_time :: datetime where
  "ex_time = \<lparr>year = 2024, month = 2, day = 29, hour = 9, minute = 5, second = 0,
     microsecond = 1234\<rparr>"

definition ex_text :: string where
  "ex_text = ''Smith J. Nature 2020. PMID: 12345''"

definition ex_cite :: "string \<Rightarrow> datetime Citation" where
  "ex_cite t = \<lparr>text = t, timestamp = ex_time, pmid = None, notes = [], summary = []\<rparr>"

text \<open>The default library, empty, nothing on disk, the summary provider off.\<close>

definition ex_empty :: "datetime manager" where
  "ex_empty = \<lparr>library_name = ''default'', citations = [],
     data_file = file_name ''default'', enabled = False, disk = [], writable = True\<rparr>"

definition ex_three :: "datetime manager" where
  "ex_three = ex_empty\<lparr>citations := [ex_cite ''a'', ex_cite ''b'', ex_cite ''c'']\<rparr>"

definition ex_one :: "datetime manager" where
  "ex_one = ex_empty\<lparr>citations := [ex_cite ex_text]\<rparr>"


text \<open>No two stored records have the same text after trimming.\<close>

definition unique_texts :: "'dt manager \<Rightarrow> bool" where
  "unique_texts s = distinct (map (\<lambda>c. strip (text c)) (citations s))"

text \<open>The stored texts are pairwise different and already trimmed.\<close>

definition stored_ok :: "'dt manager \<Rightarrow> bool" where
  "stored_ok s = (distinct (map text (citations s))
     \<and> (\<forall>k \<in> set (map text (citations s)). strip k = k))"













section \<open>Basic facts\<close>

lemma citations_saveCitations: "citations (saveCitations L s) = citations s"
  by (simp add: saveCitations_def)

lemma nth_delete: "i < length xs \<Longrightarrow> j < length xs - 1 \<Longrightarrow>
   (take i xs @ drop (Suc i) xs) ! j = (if j < i then xs ! j else xs ! Suc j)"
  by (simp add: nth_append min_def)







lemma ex_empty_citations: "citations ex_empty = []"
  by (simp add: ex_empty_def)

lemma ex_text_accepted: "isPubmedCitation ex_text"
  unfolding ex_text_def by code_simp

lemma strip_ex_text: "strip ex_text = ex_text"
  unfolding ex_text_def by code_simp

lemma short_rejected: "\<not> isPubmedCitation ''PMID: 12345''"
  by code_simp

lemma strip_Nil: "strip [] = []"
  by (simp add: strip_def lstrip_def rstrip_def)

lemma strip_note: "strip ''n'' = ''n''"
  by code_simp

lemma text_set_summary: "text (set_summary m c) = text c"
  by (simp add: set_summary_def split: option.splits)

lemma notes_set_summary: "notes (set_summary m c) = notes c"
  by (simp add: set_summary_def split: option.splits)

lemma set_summary_empty: "set_summary Map.empty c = c"
  by (simp add: set_summary_def)

lemma citations_updateSummaries:
  "\<exists>m. citations (updateSummaries L resp s) = map (set_summary m) (citations s)"
proof (cases "enabled s \<and> citations s \<noteq> []")
  case True
  then show ?thesis
    by (auto simp: updateSummaries_def Let_def citations_saveCitations)
next
  case False
  then have "citations (updateSummaries L resp s) = map (set_summary Map.empty) (citations s)"
    by (auto simp: updateSummaries_def Let_def set_summary_empty [abs_def])
  then show ?thesis by blast
qed

lemma map_text_updateSummaries:
  "map text (citations (updateSummaries L resp s)) = map text (citations s)"
proof -
  obtain m where "citations (updateSummaries L resp s) = map (set_summary m) (citations s)"
    using citations_updateSummaries by blast
  then show ?thesis by (simp add: text_set_summary comp_def)
qed

lemma map_notes_updateSummaries:
  "map notes (citations (updateSummaries L resp s)) = map notes (citations s)"
proof -
  obtain m where "citations (updateSummaries L resp s) = map (set_summary m) (citations s)"
    using citations_updateSummaries by blast
  then show ?thesis by (simp add: notes_set_summary comp_def)
qed

lemma text_append_note: "text (append_note n c) = text c"
  by (simp add: append_note_def)

lemma map_text_modify_first:
  "(\<And>c. text (f c) = text c) \<Longrightarrow> map text (modify_first P f cs) = map text cs"
  by (induction cs) auto

lemma find_text_iff:
  "(find (\<lambda>c. text c = k) cs = None) = (k \<notin> set (map text cs))"
  by (auto simp: find_None_iff)

text \<open>The three ways addCitation ends, on the list of records.\<close>

lemma addCitation_rejected:
  "\<not> isPubmedCitation t \<Longrightarrow> addCitation L now resp t n s = (PyBool False, s)"
  by (simp add: addCitation_def)

lemma addCitation_new:
  "isPubmedCitation t \<Longrightarrow> strip t \<notin> set (map text (citations s)) \<Longrightarrow>
   addCitation L now resp t n s = (PyBool True,
     updateSummaries L resp (saveCitations L (s\<lparr>citations := citations s @
       [\<lparr>text = strip t, timestamp = now, pmid = extract_pmid t, notes = n, summary = []\<rparr>]\<rparr>)))"
  using find_text_iff [of "strip t" "citations s"]
  by (simp add: addCitation_def Let_def)

lemma addCitation_duplicate:
  "isPubmedCitation t \<Longrightarrow> strip t \<in> set (map text (citations s)) \<Longrightarrow> strip n = [] \<Longrightarrow>
   addCitation L now resp t n s = (PyBool False, s)"
  using find_text_iff [of "strip t" "citations s"]
  by (auto simp: addCitation_def Let_def split: option.splits)

lemma addCitation_note:
  "isPubmedCitation t \<Longrightarrow> strip t \<in> set (map text (citations s)) \<Longrightarrow> strip n \<noteq> [] \<Longrightarrow>
   addCitation L now resp t n s = (PyStr ''note_appended'',
     saveCitations L (s\<lparr>citations :=
        modify_first (\<lambda>c. text c = strip t) (append_note n) (citations s)\<rparr>))"
  using find_text_iff [of "strip t" "citations s"]
  by (auto simp: addCitation_def Let_def split: option.splits)

lemma map_text_addCitation:
  "map text (citations (snd (addCitation L now resp t n s)))
     = (if isPubmedCitation t \<and> strip t \<notin> set (map text (citations s))
        then map text (citations s) @ [strip t] else map text (citations s))"
proof (cases "isPubmedCitation t")
  case False
  then show ?thesis by (simp add: addCitation_rejected)
next
  case acc: True
  show ?thesis
  proof (cases "strip t \<in> set (map text (citations s))")
    case False
    then show ?thesis using acc
      by (simp add: addCitation_new map_text_updateSummaries citations_saveCitations)
  next
    case dup: True
    show ?thesis
    proof (cases "strip n = []")
      case True
      then show ?thesis using acc dup by (simp add: addCitation_duplicate)
    next
      case False
      then show ?thesis using acc dup
        by (simp add: addCitation_note citations_saveCitations map_text_modify_first
            text_append_note)
    qed
  qed
qed










lemma stored_ok_unique: "stored_ok s \<Longrightarrow> unique_texts s"
proof -
  assume a: "stored_ok s"
  have "map (\<lambda>c. strip (text c)) (citations s) = map text (citations s)"
    by (rule map_cong) (use a in \<open>auto simp: stored_ok_def\<close>)
  then show ?thesis using a by (simp only: unique_texts_def stored_ok_def)
qed

lemma modify_first_last:
  "\<forall>x \<in> set xs. \<not> P x \<Longrightarrow> P y \<Longrightarrow> modify_first P f (xs @ [y]) = xs @ [f y]"
  by (induction xs) auto

lemma filter_fresh_last:
  "\<forall>x \<in> set xs. \<not> P x \<Longrightarrow> P y \<Longrightarrow> filter P (xs @ [y]) = [y]"
  by (induction xs) auto

lemma strip_a: "strip ''a'' = ''a''" by code_simp
lemma strip_sp: "strip '' '' = []" by code_simp
lemma strip_sp_b: "strip '' b'' = ''b''" by code_simp






















section \<open>Facts about the matcher and the marker pattern\<close>

lemma first_some_None: "(first_some xs = None) = (\<forall>x \<in> set xs. x = None)"
  by (induction xs rule: first_some.induct) auto

lemma splits_one_Nil: "splits cl (Suc 0) (Some (Suc 0)) [] = []"
  by (simp add: splits_def run_def)

lemma splits_one_Cons:
  "splits cl (Suc 0) (Some (Suc 0)) (c # cs) = (if cl c then [([c], cs)] else [])"
  by (simp add: splits_def run_def)

lemma rx_match_one_Nil: "rx_match ((cl, Suc 0, Some (Suc 0)) # r) [] = None"
  by (simp add: splits_one_Nil)

lemma rx_match_one_Cons:
  "rx_match ((cl, Suc 0, Some (Suc 0)) # r) (c # cs)
     = (if cl c then map_option (\<lambda>(gs, rest). ([c] # gs, rest)) (rx_match r cs) else None)"
proof (cases "rx_match r cs")
  case None
  then show ?thesis by (simp add: splits_one_Cons)
next
  case (Some a)
  then show ?thesis by (cases a) (simp add: splits_one_Cons)
qed

lemma splits_greedy:
  "lo \<le> length (takeWhile cl s) \<Longrightarrow>
   splits cl lo None s = (takeWhile cl s, dropWhile cl s)
      # map (\<lambda>k. (take k s, drop k s)) (rev [lo ..< length (takeWhile cl s)])"
proof -
  assume lo: "lo \<le> length (takeWhile cl s)"
  let ?n = "length (takeWhile cl s)"
  have r: "rev [lo ..< Suc ?n] = ?n # rev [lo ..< ?n]" using lo by simp
  have t: "take ?n s = takeWhile cl s" by (rule takeWhile_eq_take [symmetric])
  have d: "drop ?n s = dropWhile cl s" by (rule dropWhile_eq_drop [symmetric])
  have "splits cl lo None s = map (\<lambda>k. (take k s, drop k s)) (rev [lo ..< Suc ?n])"
    by (simp add: splits_def run_def)
  then show ?thesis by (simp only: r list.map t d)
qed

lemma splits_too_short:
  "length (takeWhile cl s) < lo \<Longrightarrow> splits cl lo None s = []"
  by (simp add: splits_def run_def)

lemma takeWhile_pos: "(Suc 0 \<le> length (takeWhile cl s)) = (s \<noteq> [] \<and> cl (hd s))"
  by (cases s) auto

lemma rx_match_Nil_pat: "rx_match [] s = Some ([], s)"
  by simp

lemma rx_match_plus_last:
  "rx_match [(cl, Suc 0, None)] s
     = (if s \<noteq> [] \<and> cl (hd s) then Some ([takeWhile cl s], dropWhile cl s) else None)"
proof (cases "s \<noteq> [] \<and> cl (hd s)")
  case True
  then have "Suc 0 \<le> length (takeWhile cl s)" using takeWhile_pos [of cl s] by blast
  then show ?thesis using True by (simp add: splits_greedy)
next
  case False
  then have "length (takeWhile cl s) < Suc 0" using takeWhile_pos [of cl s] by linarith
  then show ?thesis using False by (simp add: splits_too_short)
qed

lemma in_takeWhile_nth: "k < length (takeWhile P s) \<Longrightarrow> P (s ! k)"
proof (induction s arbitrary: k)
  case Nil
  then show ?case by simp
next
  case (Cons a s)
  then show ?case by (cases k) (auto split: if_splits)
qed

lemma rx_match_star_plus:
  assumes disj: "\<And>c. sp c \<Longrightarrow> \<not> dg c"
  shows "rx_match [(sp, 0, None), (dg, Suc 0, None)] s
     = (if dropWhile sp s \<noteq> [] \<and> dg (hd (dropWhile sp s))
        then Some ([takeWhile sp s, takeWhile dg (dropWhile sp s)], dropWhile dg (dropWhile sp s))
        else None)"
proof -
  let ?n = "length (takeWhile sp s)"
  let ?f = "\<lambda>(u, v). map_option (\<lambda>(gs, rest). (u # gs, rest)) (rx_match [(dg, Suc 0, None)] v)"
  have sp: "splits sp 0 None s
      = (takeWhile sp s, dropWhile sp s) # map (\<lambda>k. (take k s, drop k s)) (rev [0 ..< ?n])"
    by (rule splits_greedy) simp
  have later: "\<And>k. k < ?n \<Longrightarrow> rx_match [(dg, Suc 0, None)] (drop k s) = None"
  proof -
    fix k assume k: "k < ?n"
    then have "k < length s" using length_takeWhile_le [of sp s] by linarith
    then have d: "drop k s \<noteq> []" "hd (drop k s) = s ! k" by (simp_all add: hd_drop_conv_nth)
    have "sp (s ! k)" using k by (rule in_takeWhile_nth)
    then have "\<not> dg (hd (drop k s))" using d disj by simp
    then show "rx_match [(dg, Suc 0, None)] (drop k s) = None"
      by (simp only: rx_match_plus_last) simp
  qed
  have rest: "first_some (map ?f (map (\<lambda>k. (take k s, drop k s)) (rev [0 ..< ?n]))) = None"
    unfolding first_some_None using later by auto
  have unf: "rx_match [(sp, 0, None), (dg, Suc 0, None)] s
      = first_some (?f (takeWhile sp s, dropWhile sp s)
          # map ?f (map (\<lambda>k. (take k s, drop k s)) (rev [0 ..< ?n])))"
    by (simp only: rx_match.simps sp list.map)
  show ?thesis
  proof (cases "dropWhile sp s \<noteq> [] \<and> dg (hd (dropWhile sp s))")
    case True
    then have "?f (takeWhile sp s, dropWhile sp s)
       = Some ([takeWhile sp s, takeWhile dg (dropWhile sp s)], dropWhile dg (dropWhile sp s))"
      by (simp only: prod.case rx_match_plus_last) simp
    then show ?thesis using True unfolding unf by simp
  next
    case False
    then have "?f (takeWhile sp s, dropWhile sp s) = None"
      by (simp only: prod.case rx_match_plus_last) simp
    then show ?thesis using False rest unfolding unf by simp
  qed
qed


lemma space_not_digit: "isspace c \<Longrightarrow> \<not> isdigit c"
  by (auto simp: isspace_def isdigit_def)

lemmas tail_match = rx_match_star_plus [of isspace isdigit, OF space_not_digit]

lemma ex_chars:
  "\<not> isspace CHR ''P''" "\<not> isspace CHR ''1''" "isspace CHR '' ''" "isdigit CHR ''1''"
  "isdigit CHR ''2''" "isdigit CHR ''3''" "isdigit CHR ''4''" "isdigit CHR ''5''"
  "\<not> isdigit CHR ''P''" "\<not> isspace CHR ''5''"
  by code_simp+

lemma ex_lower:
  "lower_char CHR ''P'' \<noteq> lower_char CHR ''M''" "lower_char CHR ''P'' \<noteq> lower_char CHR ''I''"
  "lower_char CHR ''P'' \<noteq> lower_char CHR ''D''" "lower_char CHR ''P'' \<noteq> lower_char CHR '':''"
  by code_simp+

lemma tail_at_marker:
  "rx_match [(isspace, 0, None), (isdigit, Suc 0, None)] ('' 12345'' @ q)
     = Some (['' '', ''12345'' @ takeWhile isdigit q], dropWhile isdigit q)"
  by (simp only: tail_match) (simp add: ex_chars)

lemma tail_at_marker_Cons:
  "rx_match [(isspace, 0, None), (isdigit, Suc 0, None)]
      (CHR '' '' # CHR ''1'' # CHR ''2'' # CHR ''3'' # CHR ''4'' # CHR ''5'' # q)
     = Some (['' '', ''12345'' @ takeWhile isdigit q], dropWhile isdigit q)"
  using tail_at_marker [of q] by (simp del: rx_match.simps)

lemma pmid_match_here: "rx_match rx_pmid (''PMID: 12345'' @ q) \<noteq> None"
  by (simp add: rx_pmid_def lit_def star_def plus_def rx_match_one_Cons
      tail_at_marker_Cons del: rx_match.simps)

lemma rx_search_here: "rx_match r s \<noteq> None \<Longrightarrow> rx_search r s \<noteq> None"
  by (cases s) auto

lemma rx_search_append: "rx_match r s \<noteq> None \<Longrightarrow> rx_search r (p @ s) \<noteq> None"
proof (induction p)
  case Nil
  then show ?case by (simp add: rx_search_here)
next
  case (Cons a p)
  then show ?case by (cases "rx_match r (a # p @ s)") auto
qed

lemma sublist_lstrip:
  "sublist u s \<Longrightarrow> u \<noteq> [] \<Longrightarrow> \<not> isspace (hd u) \<Longrightarrow> sublist u (lstrip s)"
proof (induction s)
  case Nil
  then show ?case by simp
next
  case (Cons c cs)
  show ?case
  proof (cases "isspace c")
    case True
    then have "\<not> prefix u (c # cs)" using Cons.prems by (cases u) auto
    then have "sublist u cs" using Cons.prems(1) by (simp add: sublist_Cons_right)
    then show ?thesis using Cons True by (simp add: lstrip_def)
  next
    case False
    then show ?thesis using Cons.prems by (simp add: lstrip_def)
  qed
qed

lemma sublist_rstrip:
  "sublist u s \<Longrightarrow> u \<noteq> [] \<Longrightarrow> \<not> isspace (last u) \<Longrightarrow> sublist u (rstrip s)"
proof -
  assume a: "sublist u s" "u \<noteq> []" "\<not> isspace (last u)"
  have "sublist (rev u) (lstrip (rev s))"
    using a by (intro sublist_lstrip) (simp_all add: hd_rev)
  then have "sublist (rev (rev u)) (rev (lstrip (rev s)))" by (simp only: sublist_rev)
  then show ?thesis by (simp add: rstrip_def lstrip_def)
qed

lemma sublist_strip:
  "sublist u s \<Longrightarrow> u \<noteq> [] \<Longrightarrow> \<not> isspace (hd u) \<Longrightarrow> \<not> isspace (last u)
     \<Longrightarrow> sublist u (strip s)"
  by (simp add: strip_def sublist_lstrip sublist_rstrip)

lemma has_pmid_marker:
  assumes "sublist ''PMID: 12345'' t"
  shows "rx_search rx_pmid (strip t) \<noteq> None"
proof -
  have "sublist ''PMID: 12345'' (strip t)"
    using assms by (rule sublist_strip) (simp_all add: ex_chars)
  then obtain p q where "strip t = p @ ''PMID: 12345'' @ q" by (auto simp: sublist_def)
  then show ?thesis using rx_search_append [OF pmid_match_here, of p q] by simp
qed

lemma classify_marker:
  assumes m: "sublist ''PMID: 12345'' t"
    and len: "20 \<le> length (strip t)"
    and nocode: "\<not> list_ex (\<lambda>indicator. sublist indicator (strip t)) code_indicators"
  shows "isPubmedCitation t"
  using has_pmid_marker [OF m] len nocode
  by (simp add: isPubmedCitation_def Let_def sum_bools_def)


lemma group_short:
  "rx_match rx_pmid_group [] = None" "rx_match rx_pmid_group [a] = None"
  "rx_match rx_pmid_group [a, b] = None" "rx_match rx_pmid_group [a, b, c] = None"
  "rx_match rx_pmid_group [a, b, c, d] = None"
  by (simp_all add: rx_pmid_group_def lit_i_def star_def plus_def rx_match_one_Cons
      rx_match_one_Nil del: rx_match.simps)

lemma group_long:
  "rx_match rx_pmid_group (c1 # c2 # c3 # c4 # c5 # rest)
     = (if lower_char c1 = lower_char CHR ''P'' \<and> lower_char c2 = lower_char CHR ''M''
           \<and> lower_char c3 = lower_char CHR ''I'' \<and> lower_char c4 = lower_char CHR ''D''
           \<and> lower_char c5 = lower_char CHR '':''
        then map_option (\<lambda>(gs, r). ([c1] # [c2] # [c3] # [c4] # [c5] # gs, r))
               (rx_match [(isspace, 0, None), (isdigit, Suc 0, None)] rest)
        else None)"
proof (cases "rx_match [(isspace, 0, None), (isdigit, Suc 0, None)] rest")
  case None
  then show ?thesis
    by (simp add: rx_pmid_group_def lit_i_def star_def plus_def rx_match_one_Cons
        del: rx_match.simps)
next
  case (Some a)
  then show ?thesis
    by (cases a) (simp add: rx_pmid_group_def lit_i_def star_def plus_def rx_match_one_Cons
        del: rx_match.simps)
qed

lemma group_at_marker:
  "post = [] \<or> \<not> isdigit (hd post) \<Longrightarrow>
   rx_match rx_pmid_group (''PMID: 12345'' @ post)
     = Some ([''P'', ''M'', ''I'', ''D'', '':'', '' '', ''12345''], post)"
proof -
  assume p: "post = [] \<or> \<not> isdigit (hd post)"
  then have t: "takeWhile isdigit post = []" and d: "dropWhile isdigit post = post"
    by (cases post; simp)+
  show ?thesis
    using group_long [of "CHR ''P''" "CHR ''M''" "CHR ''I''" "CHR ''D''" "CHR '':''"
        "'' 12345'' @ post"]
    by (simp add: tail_at_marker_Cons t d del: rx_match.simps)
qed

lemma tail_through:
  assumes m: "rx_match [(isspace, 0, None), (isdigit, Suc 0, None)] (x @ CHR ''P'' # y) \<noteq> None"
  shows "rx_match [(isspace, 0, None), (isdigit, Suc 0, None)] x \<noteq> None"
proof -
  let ?s = "x @ CHR ''P'' # y"
  have a: "dropWhile isspace ?s \<noteq> [] \<and> isdigit (hd (dropWhile isspace ?s))"
  proof (rule ccontr)
    assume "\<not> (dropWhile isspace ?s \<noteq> [] \<and> isdigit (hd (dropWhile isspace ?s)))"
    then have "rx_match [(isspace, 0, None), (isdigit, Suc 0, None)] ?s = None"
      by (simp only: tail_match if_False)
    then show False using m by simp
  qed
  have "\<not> (\<forall>c \<in> set x. isspace c)"
  proof
    assume "\<forall>c \<in> set x. isspace c"
    then have "dropWhile isspace ?s = CHR ''P'' # y"
      by (simp add: dropWhile_append2 ex_chars)
    then show False using a by (simp add: ex_chars)
  qed
  then have "dropWhile isspace ?s = dropWhile isspace x @ CHR ''P'' # y"
    and "dropWhile isspace x \<noteq> []"
    by (auto simp: dropWhile_append1 dropWhile_eq_Nil_conv)
  then have "dropWhile isspace x \<noteq> [] \<and> isdigit (hd (dropWhile isspace x))"
    using a by simp
  then show ?thesis by (simp only: tail_match) simp
qed

lemma group_overlap:
  assumes x: "x \<noteq> []"
    and m: "rx_match rx_pmid_group (x @ ''PMID: 12345'' @ post) \<noteq> None"
  shows "rx_match rx_pmid_group x \<noteq> None"
proof -
  consider a where "x = [a]" | a b where "x = [a, b]" | a b c where "x = [a, b, c]"
    | a b c d where "x = [a, b, c, d]" | a b c d e r where "x = a # b # c # d # e # r"
    using x by (metis list.exhaust)
  then show ?thesis
  proof cases
    case 1
    then show ?thesis using m by (simp add: group_long ex_lower del: rx_match.simps)
  next
    case 2
    then show ?thesis using m by (simp add: group_long ex_lower del: rx_match.simps)
  next
    case 3
    then show ?thesis using m by (simp add: group_long ex_lower del: rx_match.simps)
  next
    case 4
    then show ?thesis using m by (simp add: group_long ex_lower del: rx_match.simps)
  next
    case 5
    have "rx_match [(isspace, 0, None), (isdigit, Suc 0, None)] r \<noteq> None"
      if "rx_match [(isspace, 0, None), (isdigit, Suc 0, None)]
            (r @ CHR ''P'' # ''MID: 12345'' @ post) \<noteq> None"
      using that by (rule tail_through)
    then show ?thesis using m 5
      by (auto simp add: group_long simp del: rx_match.simps split: if_splits)
  qed
qed

lemma rx_search_None_suffix:
  "rx_search r p = None \<Longrightarrow> suffix x p \<Longrightarrow> rx_match r x = None"
proof (induction p)
  case Nil
  then show ?case by (cases "rx_match r []") auto
next
  case (Cons a p)
  show ?case
  proof (cases "x = a # p")
    case True
    then show ?thesis using Cons.prems(1) by (cases "rx_match r (a # p)") auto
  next
    case False
    then have "suffix x p" using Cons.prems(2) by (auto simp: suffix_Cons)
    moreover have "rx_search r p = None"
      using Cons.prems(1) by (cases "rx_match r (a # p)") auto
    ultimately show ?thesis using Cons.IH by simp
  qed
qed

lemma rx_search_skip:
  "(\<And>x. x \<noteq> [] \<Longrightarrow> suffix x p \<Longrightarrow> rx_match r (x @ s) = None) \<Longrightarrow> s \<noteq> [] \<Longrightarrow>
   rx_search r (p @ s) = rx_search r s"
proof (induction p)
  case Nil
  then show ?case by simp
next
  case (Cons a p)
  have "rx_match r ((a # p) @ s) = None" using Cons.prems(1) [of "a # p"] by simp
  moreover have "rx_search r (p @ s) = rx_search r s"
    using Cons.prems by (intro Cons.IH) (auto simp: suffix_Cons)
  ultimately show ?case by simp
qed

lemma extract_marker:
  assumes none: "extract_pmid pre = None"
    and post: "post = [] \<or> \<not> isdigit (hd post)"
  shows "extract_pmid (pre @ ''PMID: 12345'' @ post) = Some ''12345''"
proof -
  let ?M = "''PMID: 12345'' @ post"
  have n: "rx_search rx_pmid_group pre = None" using none by (simp add: extract_pmid_def)
  have skip: "rx_search rx_pmid_group (pre @ ?M) = rx_search rx_pmid_group ?M"
  proof (rule rx_search_skip)
    fix x assume x: "x \<noteq> []" "suffix x pre"
    have "rx_match rx_pmid_group x = None" using n x(2) by (rule rx_search_None_suffix)
    then show "rx_match rx_pmid_group (x @ ?M) = None"
      using group_overlap [OF x(1), of post] by blast
  qed simp
  have g: "rx_search rx_pmid_group ?M = Some [''P'', ''M'', ''I'', ''D'', '':'', '' '', ''12345'']"
    using group_at_marker [OF post] by (simp del: rx_match.simps)
  show ?thesis unfolding extract_pmid_def by (simp only: skip g option.map) simp
qed

lemma group_match_here: "rx_match rx_pmid_group (''PMID: 12345'' @ q) \<noteq> None"
  using group_long [of "CHR ''P''" "CHR ''M''" "CHR ''I''" "CHR ''D''" "CHR '':''"
      "'' 12345'' @ q"]
  by (simp add: tail_at_marker_Cons del: rx_match.simps)

lemma ex_text_split: "ex_text = ''Smith J. Nature 2020. '' @ ''PMID: 12345'' @ []"
  by (simp add: ex_text_def)

lemma ex_text_no_code:
  "\<not> list_ex (\<lambda>indicator. sublist indicator (strip ex_text)) code_indicators"
  unfolding ex_text_def by code_simp

lemma ex_text_pre: "extract_pmid ''Smith J. Nature 2020. '' = None"
  by code_simp

section \<open>Facts about library names\<close>

lemma loadCitations_fields:
  assumes "loadCitations L s = Some (r, s')"
  shows "data_file s' = data_file s \<and> library_name s' = library_name s"
proof (cases "map_of (disk s) (data_file s)")
  case None
  then show ?thesis using assms by (auto simp: loadCitations_def)
next
  case (Some f)
  show ?thesis
  proof (cases f)
    case Corrupt
    then show ?thesis using assms Some by (auto simp: loadCitations_def)
  next
    case (Json data)
    show ?thesis
    proof (cases "py_iter data")
      case (Inl e)
      then show ?thesis using assms Some Json by (auto simp: loadCitations_def)
    next
      case (Inr items)
      then show ?thesis using assms Some Json
        by (cases "load_loop L items (Some (citations s))")
           (auto simp: loadCitations_def split: exc.splits option.splits)
    qed
  qed
qed

lemma switchLibrary_fields:
  "switchLibrary L name s = Some s' \<Longrightarrow> library_name s' = name \<and> data_file s' = file_name name"
  using loadCitations_fields [of L
      "(saveCitations L s)\<lparr>library_name := name, data_file := file_name name, citations := []\<rparr>"]
  by (auto simp: switchLibrary_def Let_def)

lemma init_fields:
  "CitationManager_init L name k c d w = Some s'
     \<Longrightarrow> library_name s' = name \<and> data_file s' = file_name name"
  using loadCitations_fields [of L
      "\<lparr>library_name = name, citations = [], data_file = file_name name,
        enabled = OpenAIHelper_init k c, disk = d, writable = w\<rparr>"]
  by (auto simp: CitationManager_init_def)

lemma sanitize_safe: "list_all safe_char (sanitize name)"
  by (auto simp: sanitize_def list_all_iff safe_char_def)

lemma sanitize_length: "length (sanitize name) = length (strip name)"
  by (simp add: sanitize_def)

lemma ex_sanitize: "strip '' my lib/1 '' = ''my lib/1''" "sanitize '' my lib/1 '' = ''my_lib_1''"
  by code_simp+

lemma ex_blank_name: "strip ''  '' = []"
  by code_simp

lemma ex_slash: "\<not> safe_char CHR ''/''"
  by code_simp

lemma ex_switch:
  "switchLibrary naive_lib n ex_empty
     = Some (ex_empty\<lparr>library_name := n, data_file := file_name n,
          disk := [(file_name ''default'', Json (JList []))]\<rparr>)"
  by (cases "n = ''default''")
     (simp_all add: switchLibrary_def saveCitations_def loadCitations_def ex_empty_def Let_def
      file_name_def)

lemma ex_init:
  "CitationManager_init naive_lib n [] False [] True
     = Some \<lparr>library_name = n, citations = [], data_file = file_name n, enabled = False,
          disk = [], writable = True\<rparr>"
  by (simp add: CitationManager_init_def loadCitations_def OpenAIHelper_init_def)

section \<open>Facts about the uniqueness of texts\<close>









section \<open>Removal by position\<close>

text \<open>
  Claim C8. For every state and every integer index: when \<open>0 \<le> index < len(citations)\<close>,
  \<open>removeCitation\<close> leaves the records before the position followed by the records after
  it, so one record fewer, each of the others at its place or one place down, in the
  order they had; for any other index (negative ones too) the whole state, the files
  included, is returned as it was, and nothing is raised.
\<close>

theorem removeCitation_bounds:
  "(0 \<le> i \<and> i < int (length (citations s)) \<longrightarrow>
      citations (removeCitation L i s)
        = take (nat i) (citations s) @ drop (Suc (nat i)) (citations s)
      \<and> length (citations (removeCitation L i s)) = length (citations s) - 1
      \<and> (\<forall>j < length (citations s) - 1.
           citations (removeCitation L i s) ! j
             = (if j < nat i then citations s ! j else citations s ! Suc j)))
   \<and> (\<not> (0 \<le> i \<and> i < int (length (citations s))) \<longrightarrow> removeCitation L i s = s)"
proof (intro conjI impI)
  assume b: "0 \<le> i \<and> i < int (length (citations s))"
  then have n: "nat i < length (citations s)" by linarith
  show eq: "citations (removeCitation L i s)
        = take (nat i) (citations s) @ drop (Suc (nat i)) (citations s)"
    using b by (simp add: removeCitation_def citations_saveCitations)
  show "length (citations (removeCitation L i s)) = length (citations s) - 1"
    using n by (simp add: eq)
  show "\<forall>j < length (citations s) - 1.
           citations (removeCitation L i s) ! j
             = (if j < nat i then citations s ! j else citations s ! Suc j)"
  proof (intro allI impI)
    fix j assume j: "j < length (citations s) - 1"
    show "citations (removeCitation L i s) ! j
             = (if j < nat i then citations s ! j else citations s ! Suc j)"
      unfolding eq using nth_delete [OF n j] .
  qed
next
  assume nb: "\<not> (0 \<le> i \<and> i < int (length (citations s)))"
  show "removeCitation L i s = s" by (simp only: removeCitation_def nb if_False)
qed

text \<open>Three records: index 1 leaves the first and the third; 3 and -1 change nothing.\<close>

theorem removeCitation_bounds_witness:
  "(0 \<le> (1::int) \<and> 1 < int (length (citations ex_three)))
   \<and> citations (removeCitation naive_lib 1 ex_three) = [ex_cite ''a'', ex_cite ''c'']
   \<and> \<not> (0 \<le> (3::int) \<and> 3 < int (length (citations ex_three)))
   \<and> removeCitation naive_lib 3 ex_three = ex_three
   \<and> removeCitation naive_lib (- 1) ex_three = ex_three"
  using removeCitation_bounds [of 1 ex_three naive_lib]
    removeCitation_bounds [of 3 ex_three naive_lib]
    removeCitation_bounds [of "- 1" ex_three naive_lib]
  by (simp add: ex_three_def ex_empty_def)

section \<open>The summary provider when disabled\<close>

text \<open>
  Claim C9. When the provider is disabled (\<open>openai_helper.enabled\<close> is false),
  \<open>updateSummaries\<close> returns the state as it was, every summary and everything else
  unchanged, whatever the service would have answered, and
  \<open>generateCitationSummaries\<close> returns the empty dict for every batch.
\<close>

theorem disabled_provider_noop:
  "\<not> enabled s \<Longrightarrow>
     updateSummaries L resp s = s \<and> generateCitationSummaries (enabled s) resp cits = Map.empty"
  by (simp add: updateSummaries_def generateCitationSummaries_def)

theorem disabled_provider_noop_witness:
  "\<not> enabled ex_three \<and> updateSummaries naive_lib (Some ''1. Smith: x'') ex_three = ex_three
     \<and> generateCitationSummaries (enabled ex_three) (Some ''1. Smith: x'') [''a''] = Map.empty"
proof -
  have h: "\<not> enabled ex_three" by (simp add: ex_three_def ex_empty_def)
  show ?thesis using h disabled_provider_noop [OF h] by simp
qed

section \<open>What addCitation returns\<close>

text \<open>
  Claim C10. \<open>addCitation\<close> returns the boolean \<open>False\<close> both when the classifier rejects
  the text and when the text is accepted, already stored and the note empty, so the
  value does not tell the two apart; when the text is accepted, already stored and the
  note has content it returns the string \<open>"note_appended"\<close>, which is not a boolean.
\<close>

theorem addCitation_return_values:
  "(\<not> isPubmedCitation t \<longrightarrow> fst (addCitation L now resp t n s) = PyBool False)
   \<and> (isPubmedCitation t \<and> find (\<lambda>c. text c = strip t) (citations s) \<noteq> None \<and> strip n = []
        \<longrightarrow> fst (addCitation L now resp t n s) = PyBool False)
   \<and> (isPubmedCitation t \<and> find (\<lambda>c. text c = strip t) (citations s) \<noteq> None \<and> strip n \<noteq> []
        \<longrightarrow> fst (addCitation L now resp t n s) = PyStr ''note_appended'')"
  by (auto simp: addCitation_def Let_def split: option.splits)

theorem addCitation_return_values_witness:
  "\<not> isPubmedCitation ''PMID: 12345''
   \<and> fst (addCitation naive_lib ex_time None ''PMID: 12345'' [] ex_one) = PyBool False
   \<and> isPubmedCitation ex_text
   \<and> find (\<lambda>c. text c = strip ex_text) (citations ex_one) \<noteq> None
   \<and> fst (addCitation naive_lib ex_time None ex_text [] ex_one) = PyBool False
   \<and> fst (addCitation naive_lib ex_time None ex_text ''n'' ex_one) = PyStr ''note_appended''"
proof -
  have f: "find (\<lambda>c. text c = strip ex_text) (citations ex_one) \<noteq> None"
    by (simp add: ex_one_def ex_cite_def strip_ex_text)
  have n: "strip ''n'' \<noteq> []" by (simp add: strip_note)
  show ?thesis
    using addCitation_return_values [of "''PMID: 12345''" naive_lib ex_time None "[]" ex_one]
      addCitation_return_values [of ex_text naive_lib ex_time None "[]" ex_one]
      addCitation_return_values [of ex_text naive_lib ex_time None "''n''" ex_one]
      short_rejected ex_text_accepted f strip_Nil n
    by simp
qed

section \<open>Adding the same text twice\<close>

text \<open>
  Claim C1. For every text the classifier accepts and every state in which no record has
  the stripped text: \<open>addCitation(text, note)\<close> returns \<open>True\<close> (Added) and stores one
  record more; a second \<open>addCitation(text, "")\<close> right after it finds that record,
  returns \<open>False\<close> (DuplicateIgnored) and returns the state as it was, so the number of
  records and every record are unchanged.
\<close>

theorem addCitation_twice:
  assumes acc: "isPubmedCitation t"
    and fresh: "\<forall>c \<in> set (citations s). text c \<noteq> strip t"
    and s1: "s1 = snd (addCitation L now1 resp1 t n s)"
  shows "fst (addCitation L now1 resp1 t n s) = PyBool True
     \<and> length (citations s1) = Suc (length (citations s))
     \<and> find (\<lambda>c. text c = strip t) (citations s1) \<noteq> None
     \<and> fst (addCitation L now2 resp2 t [] s1) = PyBool False
     \<and> snd (addCitation L now2 resp2 t [] s1) = s1"
proof -
  have nin: "strip t \<notin> set (map text (citations s))" using fresh by auto
  have r1: "fst (addCitation L now1 resp1 t n s) = PyBool True"
    using acc nin by (simp add: addCitation_new)
  have tx: "map text (citations s1) = map text (citations s) @ [strip t]"
    unfolding s1 using acc nin by (simp add: map_text_addCitation)
  have len: "length (citations s1) = Suc (length (citations s))"
    using arg_cong [OF tx, of length] by simp
  have dup: "strip t \<in> set (map text (citations s1))" by (simp add: tx)
  have found: "find (\<lambda>c. text c = strip t) (citations s1) \<noteq> None"
    using dup find_text_iff [of "strip t" "citations s1"] by simp
  have two: "addCitation L now2 resp2 t [] s1 = (PyBool False, s1)"
    using acc dup by (simp add: addCitation_duplicate strip_Nil)
  show ?thesis using r1 len found two by simp
qed

theorem addCitation_twice_witness:
  "isPubmedCitation ex_text
   \<and> list_all (\<lambda>c. text c \<noteq> strip ex_text) (citations ex_empty)
   \<and> fst (addCitation naive_lib ex_time None ex_text ''n'' ex_empty) = PyBool True
   \<and> length (citations (snd (addCitation naive_lib ex_time None ex_text ''n'' ex_empty))) = 1
   \<and> fst (addCitation naive_lib ex_time None ex_text []
        (snd (addCitation naive_lib ex_time None ex_text ''n'' ex_empty))) = PyBool False
   \<and> snd (addCitation naive_lib ex_time None ex_text []
        (snd (addCitation naive_lib ex_time None ex_text ''n'' ex_empty)))
      = snd (addCitation naive_lib ex_time None ex_text ''n'' ex_empty)"
proof -
  have fresh: "\<forall>c \<in> set (citations ex_empty). text c \<noteq> strip ex_text"
    by (simp add: ex_empty_def)
  have fresh_list: "list_all (\<lambda>c. text c \<noteq> strip ex_text) (citations ex_empty)"
    by (simp add: ex_empty_def)
  show ?thesis
    using addCitation_twice [OF ex_text_accepted fresh refl, of naive_lib ex_time None "''n''"
        ex_time None] ex_text_accepted fresh_list
    by (simp add: ex_empty_citations)
qed

section \<open>Uniqueness of the stored texts\<close>




section \<open>Notes added to a stored citation\<close>

text \<open>
  Claim C2, as the code has it. For every text the classifier accepts, every state in
  which no record has the stripped text, every non-empty note \<open>a\<close> and every note \<open>b\<close>
  with a character that is not white space: \<open>addCitation(text, a)\<close> returns \<open>True\<close>
  (Added), \<open>addCitation(text, b)\<close> right after it returns \<open>"note_appended"\<close>
  (NoteAppended), and then exactly one record has the stripped text, its notes being \<open>a\<close>,
  the separator, and \<open>b\<close> with its leading and trailing white space removed.
\<close>

theorem addCitation_notes:
  assumes acc: "isPubmedCitation t"
    and fresh: "\<forall>c \<in> set (citations s). text c \<noteq> strip t"
    and a: "a \<noteq> []"
    and b: "strip b \<noteq> []"
    and s1: "s1 = snd (addCitation L now1 resp1 t a s)"
    and s2: "s2 = snd (addCitation L now2 resp2 t b s1)"
  shows "fst (addCitation L now1 resp1 t a s) = PyBool True
     \<and> fst (addCitation L now2 resp2 t b s1) = PyStr ''note_appended''
     \<and> map notes (filter (\<lambda>c. text c = strip t) (citations s2)) = [a @ separator @ strip b]"
proof -
  let ?new = "\<lparr>text = strip t, timestamp = now1, pmid = extract_pmid t, notes = a,
     summary = []\<rparr>"
  let ?P = "\<lambda>c. text c = strip t"
  have nin: "strip t \<notin> set (map text (citations s))" using fresh by auto
  have r1: "fst (addCitation L now1 resp1 t a s) = PyBool True"
    using acc nin by (simp add: addCitation_new)
  obtain m where m: "citations s1 = map (set_summary m) (citations s @ [?new])"
    using citations_updateSummaries [of L resp1
        "saveCitations L (s\<lparr>citations := citations s @ [?new]\<rparr>)"] acc nin
    by (auto simp: s1 addCitation_new citations_saveCitations)
  let ?xs = "map (set_summary m) (citations s)"
  let ?y = "set_summary m ?new"
  have c1: "citations s1 = ?xs @ [?y]" using m by simp
  have nP: "\<forall>x \<in> set ?xs. \<not> ?P x" using fresh by (auto simp: text_set_summary)
  have Py: "?P ?y" by (simp add: text_set_summary)
  have dup: "strip t \<in> set (map text (citations s1))"
    using Py by (simp add: c1)
  have two: "addCitation L now2 resp2 t b s1 = (PyStr ''note_appended'',
     saveCitations L (s1\<lparr>citations := modify_first ?P (append_note b) (citations s1)\<rparr>))"
    using acc dup b by (rule addCitation_note)
  have c2: "citations s2 = ?xs @ [append_note b ?y]"
    using nP Py by (simp add: s2 two citations_saveCitations c1 modify_first_last)
  have Pz: "?P (append_note b ?y)" using Py by (simp add: text_append_note)
  have "filter ?P (citations s2) = [append_note b ?y]"
    unfolding c2 using nP Pz by (rule filter_fresh_last)
  moreover have "notes (append_note b ?y) = a @ separator @ strip b"
    using a by (simp add: append_note_def notes_set_summary)
  ultimately show ?thesis using r1 two by simp
qed

text \<open>The first note \<open>"a"\<close>, the second \<open>" b"\<close>: the notes end in \<open>"b"\<close>.\<close>

theorem addCitation_notes_witness:
  "isPubmedCitation ex_text
   \<and> list_all (\<lambda>c. text c \<noteq> strip ex_text) (citations ex_empty)
   \<and> ''a'' \<noteq> [] \<and> strip '' b'' \<noteq> []
   \<and> fst (addCitation naive_lib ex_time None ex_text ''a'' ex_empty) = PyBool True
   \<and> fst (addCitation naive_lib ex_time None ex_text '' b''
        (snd (addCitation naive_lib ex_time None ex_text ''a'' ex_empty))) = PyStr ''note_appended''
   \<and> map notes (filter (\<lambda>c. text c = strip ex_text)
        (citations (snd (addCitation naive_lib ex_time None ex_text '' b''
          (snd (addCitation naive_lib ex_time None ex_text ''a'' ex_empty))))))
      = [''a'' @ separator @ ''b'']"
proof -
  have fresh: "\<forall>c \<in> set (citations ex_empty). text c \<noteq> strip ex_text"
    by (simp add: ex_empty_def)
  have a: "''a'' \<noteq> []" by simp
  have b: "strip '' b'' \<noteq> []" by (simp add: strip_sp_b)
  have fresh_list: "list_all (\<lambda>c. text c \<noteq> strip ex_text) (citations ex_empty)"
    by (simp add: ex_empty_def)
  show ?thesis
    using addCitation_notes [OF ex_text_accepted fresh a b refl refl, of naive_lib ex_time None
        ex_time None] ex_text_accepted fresh_list b
    by (simp add: strip_sp_b)
qed

text \<open>
  Claim C2 as stated fails for a second note that is not empty but has white space
  only, or white space around it: after \<open>addCitation(ex_text, "a")\<close> on the empty
  library, \<open>addCitation(ex_text, " ")\<close> returns \<open>False\<close> and leaves the notes \<open>"a"\<close>, and
  \<open>addCitation(ex_text, " b")\<close> does not give the notes \<open>"a"\<close>, separator, \<open>" b"\<close>.
\<close>

theorem addCitation_notes_counterexample:
  "fst (addCitation naive_lib ex_time None ex_text '' ''
        (snd (addCitation naive_lib ex_time None ex_text ''a'' ex_empty))) = PyBool False
   \<and> map notes (citations (snd (addCitation naive_lib ex_time None ex_text '' ''
        (snd (addCitation naive_lib ex_time None ex_text ''a'' ex_empty))))) = [''a'']
   \<and> map notes (citations (snd (addCitation naive_lib ex_time None ex_text '' b''
        (snd (addCitation naive_lib ex_time None ex_text ''a'' ex_empty)))))
       \<noteq> [''a'' @ separator @ '' b'']"
  by (simp add: addCitation_def ex_text_accepted strip_ex_text strip_sp strip_sp_b Let_def
      ex_empty_def updateSummaries_def saveCitations_def append_note_def separator_def)

section \<open>Loading a damaged file\<close>



section \<open>Saving and loading again\<close>



section \<open>Texts with the marker PMID: 12345\<close>

text \<open>
  Claim C4, as the code has it. For every text that contains \<open>PMID: 12345\<close>, whose
  length after trimming is at least 20 and which, trimmed, contains none of the
  code-like fragments: \<open>isPubmedCitation\<close> returns true and \<open>addCitation\<close> extracts an
  identifier; the identifier is \<open>12345\<close> when the text before that occurrence has no
  match of the marker pattern (in any letter case) and the occurrence is not followed
  by a further digit.
\<close>

theorem pmid_marker:
  assumes t: "t = pre @ ''PMID: 12345'' @ post"
    and len: "20 \<le> length (strip t)"
    and nocode: "\<not> list_ex (\<lambda>indicator. sublist indicator (strip t)) code_indicators"
  shows "isPubmedCitation t \<and> extract_pmid t \<noteq> None
     \<and> (extract_pmid pre = None \<and> (post = [] \<or> \<not> isdigit (hd post))
          \<longrightarrow> extract_pmid t = Some ''12345'')"
proof (intro conjI impI)
  have "sublist ''PMID: 12345'' t" unfolding t sublist_def by blast
  then show "isPubmedCitation t" using len nocode by (rule classify_marker)
  show "extract_pmid t \<noteq> None"
    unfolding t extract_pmid_def using rx_search_append [OF group_match_here, of pre post]
    by simp
  assume "extract_pmid pre = None \<and> (post = [] \<or> \<not> isdigit (hd post))"
  then show "extract_pmid t = Some ''12345''" unfolding t by (simp only: extract_marker)
qed

theorem pmid_marker_witness:
  "ex_text = ''Smith J. Nature 2020. '' @ ''PMID: 12345'' @ []
   \<and> 20 \<le> length (strip ex_text)
   \<and> \<not> list_ex (\<lambda>indicator. sublist indicator (strip ex_text)) code_indicators
   \<and> extract_pmid ''Smith J. Nature 2020. '' = None
   \<and> isPubmedCitation ex_text \<and> extract_pmid ex_text = Some ''12345''"
proof -
  have len: "20 \<le> length (strip ex_text)" by (simp add: strip_ex_text) (simp add: ex_text_def)
  show ?thesis
    using pmid_marker [OF ex_text_split len ex_text_no_code] ex_text_split len ex_text_no_code
      ex_text_pre
    by blast
qed

text \<open>
  Claim C4 as stated, with no condition on length and content, fails: the text
  \<open>PMID: 12345\<close> alone is shorter than 20 characters and is rejected; a text with a
  code-like fragment is rejected; and from \<open>PMID: 123456\<close>, which contains
  \<open>PMID: 12345\<close>, the identifier extracted is \<open>123456\<close>.
\<close>

theorem pmid_marker_counterexample:
  "sublist ''PMID: 12345'' ''PMID: 12345'' \<and> \<not> isPubmedCitation ''PMID: 12345''
   \<and> sublist ''PMID: 12345'' ''def f(): return 1  # PMID: 12345''
   \<and> \<not> isPubmedCitation ''def f(): return 1  # PMID: 12345''
   \<and> sublist ''PMID: 12345'' ''Smith J. Nature 2020. PMID: 123456''
   \<and> extract_pmid ''Smith J. Nature 2020. PMID: 123456'' = Some ''123456''
   \<and> extract_pmid ''Smith J. Nature 2020. PMID: 123456'' \<noteq> Some ''12345''"
  by code_simp

section \<open>Library names\<close>

text \<open>
  Claim C6, as the code has it. The name typed into the window's new-library dialog,
  when the dialog is confirmed and the name has a character that is not white space, is
  trimmed and each of its characters outside the safe set (word characters, hyphen,
  underscore) is replaced by an underscore; the result, not empty and of safe characters
  only, is the name the manager switches to and builds the file name from. A cancelled
  dialog, or a name that is empty or white space only, leaves the manager as it was.
  \<open>switchLibrary\<close> and the constructor of the manager build the file name from the name
  they are given, unchanged.
\<close>

theorem createNewLibrary_sanitizes:
  "(ok \<and> strip name \<noteq> [] \<longrightarrow>
      createNewLibrary L name ok s = switchToLibrary L (sanitize name) s
      \<and> list_all safe_char (sanitize name) \<and> sanitize name \<noteq> []
      \<and> (\<forall>s'. createNewLibrary L name ok s = Some s' \<longrightarrow>
            library_name s' = sanitize name
            \<and> (sanitize name \<noteq> library_name s \<longrightarrow> data_file s' = file_name (sanitize name))))
   \<and> (\<not> (ok \<and> strip name \<noteq> []) \<longrightarrow> createNewLibrary L name ok s = Some s)
   \<and> (\<forall>s'. switchLibrary L name s = Some s' \<longrightarrow>
         library_name s' = name \<and> data_file s' = file_name name)
   \<and> (\<forall>s'. CitationManager_init L name k c d w = Some s' \<longrightarrow>
         library_name s' = name \<and> data_file s' = file_name name)"
proof (intro conjI impI allI)
  assume a: "ok \<and> strip name \<noteq> []"
  show c: "createNewLibrary L name ok s = switchToLibrary L (sanitize name) s"
    using a by (simp add: createNewLibrary_def)
  show "list_all safe_char (sanitize name)" by (rule sanitize_safe)
  show "sanitize name \<noteq> []" using a sanitize_length [of name] by auto
  fix s' assume s': "createNewLibrary L name ok s = Some s'"
  show "library_name s' = sanitize name"
    using s' switchLibrary_fields [of L "sanitize name" s s']
    unfolding c switchToLibrary_def by (auto split: if_splits)
  assume "sanitize name \<noteq> library_name s"
  then show "data_file s' = file_name (sanitize name)"
    using s' switchLibrary_fields [of L "sanitize name" s s']
    unfolding c switchToLibrary_def by (auto split: if_splits)
next
  assume "\<not> (ok \<and> strip name \<noteq> [])"
  then show "createNewLibrary L name ok s = Some s" by (auto simp: createNewLibrary_def)
next
  fix s' assume "switchLibrary L name s = Some s'"
  then show "library_name s' = name" "data_file s' = file_name name"
    using switchLibrary_fields by blast+
next
  fix s' assume "CitationManager_init L name k c d w = Some s'"
  then show "library_name s' = name" "data_file s' = file_name name"
    using init_fields by blast+
qed

theorem createNewLibrary_sanitizes_witness:
  "(True \<and> strip '' my lib/1 '' \<noteq> [])
   \<and> sanitize '' my lib/1 '' = ''my_lib_1'' \<and> list_all safe_char ''my_lib_1''
   \<and> map_option data_file (createNewLibrary naive_lib '' my lib/1 '' True ex_empty)
       = Some ''.pubmed_citations_my_lib_1.json''
   \<and> \<not> (True \<and> strip ''  '' \<noteq> [])
   \<and> createNewLibrary naive_lib ''  '' True ex_empty = Some ex_empty"
proof -
  have a: "True \<and> strip '' my lib/1 '' \<noteq> []" by (simp add: ex_sanitize)
  have b: "\<not> (True \<and> strip ''  '' \<noteq> [])" by (simp add: ex_blank_name)
  have n: "''my_lib_1'' \<noteq> library_name ex_empty" by (simp add: ex_empty_def)
  have d: "map_option data_file (createNewLibrary naive_lib '' my lib/1 '' True ex_empty)
       = Some ''.pubmed_citations_my_lib_1.json''"
    using createNewLibrary_sanitizes [of True "'' my lib/1 ''" naive_lib ex_empty] a n
    by (simp add: ex_sanitize switchToLibrary_def ex_switch file_name_def)
  show ?thesis
    using createNewLibrary_sanitizes [of True "'' my lib/1 ''" naive_lib ex_empty]
      createNewLibrary_sanitizes [of True "''  ''" naive_lib ex_empty] a b d
    by (simp add: ex_sanitize)
qed

text \<open>
  Claim C6 as stated fails on \<open>switchLibrary\<close> and on the constructor, which put the
  name \<open>a/b\<close> into the file name with its slash, and on the dialog, which rejects the
  name of two spaces.
\<close>

theorem createNewLibrary_sanitizes_counterexample:
  "\<not> safe_char CHR ''/''
   \<and> map_option data_file (switchLibrary naive_lib ''a/b'' ex_empty)
       = Some ''.pubmed_citations_a/b.json''
   \<and> map_option data_file (CitationManager_init naive_lib ''a/b'' [] False [] True)
       = Some ''.pubmed_citations_a/b.json''
   \<and> createNewLibrary naive_lib ''  '' True ex_empty = Some ex_empty"
  by (simp add: ex_slash ex_switch ex_init file_name_def createNewLibrary_def ex_blank_name)

end
